theory Spec2Isabelle
  imports Complex_Main "HOL-Library.Sublist"
begin

section \<open>The NanoVNA driver: echo scrubbing and reply decoding\<close>

text \<open>
  A shallow embedding of \<^verbatim>\<open>pymeasure/instruments/nanovna/nanovna.py\<close>: the adapter
  method \<^verbatim>\<open>SerialAdapterWithEcho._read_echo\<close> and the instrument methods
  \<^verbatim>\<open>ask\<close>, \<^verbatim>\<open>_process_frequencies\<close>, \<^verbatim>\<open>_process_data\<close>, \<^verbatim>\<open>get_frequencies\<close>,
  \<^verbatim>\<open>get_S11_data\<close>, \<^verbatim>\<open>get_S21_data\<close>, \<^verbatim>\<open>get_cals\<close> and the \<^verbatim>\<open>power\<close> setting.
  Python text is a \<open>string\<close>, a raised exception is the left summand of a result,
  the serial channel is a record passed through every call.
\<close>

subsection \<open>Exceptions\<close>

datatype error =
    TimeoutError \<comment> \<open>no frame arrived within the adapter's read window\<close>
  | DecodeError \<comment> \<open>\<^verbatim>\<open>bytes.decode()\<close> rejected the raw frame\<close>
  | EmptySeparator \<comment> \<open>\<^verbatim>\<open>str.split('')\<close>: ValueError, empty separator\<close>
  | ConvertError string \<comment> \<open>numpy: ValueError, could not convert string to float\<close>
  | BroadcastError \<comment> \<open>numpy: ValueError, operands could not be broadcast together\<close>
  | ValidationError \<comment> \<open>the validator of a setting rejected the value\<close>

subsection \<open>Python's string methods\<close>

text \<open>
  \<^verbatim>\<open>s.replace(old, new)\<close> scans \<open>s\<close> from the left and replaces the non-overlapping
  occurrences of \<open>old\<close>; an empty \<open>old\<close> matches before every character and at
  the end.
\<close>

function replace_str :: "string \<Rightarrow> string \<Rightarrow> string \<Rightarrow> string" where
  "replace_str old new [] = (if old = [] then new else [])"
| "replace_str old new (c # cs) =
     (if old = [] then new @ c # replace_str old new cs
      else if prefix old (c # cs)
        then new @ replace_str old new (drop (length old) (c # cs))
      else c # replace_str old new cs)"
  by pat_completeness auto
termination
  by (relation "measure (\<lambda>(old, new, s). length s)") auto

text \<open>
  \<^verbatim>\<open>s.split(sep)\<close> with a non-empty separator cuts \<open>s\<close> at the non-overlapping
  occurrences of \<open>sep\<close>, found from the left; the result always has at least one
  segment. An empty separator raises.
\<close>

function split_str :: "string \<Rightarrow> string \<Rightarrow> string list" where
  "split_str sep [] = [[]]"
| "split_str sep (c # cs) =
     (if sep \<noteq> [] \<and> prefix sep (c # cs)
        then [] # split_str sep (drop (length sep) (c # cs))
      else (case split_str sep cs of
              [] \<Rightarrow> [[c]]
            | seg # segs \<Rightarrow> (c # seg) # segs))"
  by pat_completeness auto
termination
  by (relation "measure (\<lambda>(sep, s). length s)") auto

definition py_split :: "string \<Rightarrow> string \<Rightarrow> error + string list" where
  "py_split sep s = (if sep = [] then Inl EmptySeparator else Inr (split_str sep s))"

text \<open>\<^verbatim>\<open>sep.join(xs)\<close>.\<close>

fun join_str :: "string \<Rightarrow> string list \<Rightarrow> string" where
  "join_str sep [] = []"
| "join_str sep [x] = x"
| "join_str sep (x # y # ys) = x @ sep @ join_str sep (y # ys)"

text \<open>
  The slice \<^verbatim>\<open>xs[1:-1]\<close>: from index 1 up to, not including, the last index; the
  bounds are clipped, so a list of fewer than three elements gives the empty list.
\<close>

definition slice_1_m1 :: "'a list \<Rightarrow> 'a list" where
  "slice_1_m1 xs = drop 1 (take (length xs - 1) xs)"

text \<open>Whether \<open>pat\<close> occurs in \<open>s\<close> as a contiguous substring (\<^verbatim>\<open>pat in s\<close>).\<close>

fun occurs_in :: "string \<Rightarrow> string \<Rightarrow> bool" where
  "occurs_in pat [] = (pat = [])"
| "occurs_in pat (c # cs) = (prefix pat (c # cs) \<or> occurs_in pat cs)"

subsection \<open>The serial adapter with echo\<close>

definition CR :: char where "CR = CHR 0x0D"
definition LF :: char where "LF = CHR 0x0A"

definition echo_termination :: string where
  "echo_termination = [CR, LF]"

definition prompt :: string where
  "prompt = ''ch> ''"

definition write_termination :: string where
  "write_termination = [CR]"

text \<open>
  Modelled from the spec: the serial adapter's \<^verbatim>\<open>write\<close> and \<^verbatim>\<open>_read_bytes\<close> belong
  to the base class \<^verbatim>\<open>SerialAdapter\<close>, which is not part of the source file. After
  section 4.1 of the specification, \<open>write\<close> appends the write termination and sends
  the line, expecting no acknowledgement; a read returns the next raw frame, or fails
  with a timeout when none arrives. The channel keeps the lines sent so far (oldest
  first) and the outcomes of the coming \<^verbatim>\<open>_read_bytes(...).decode()\<close> calls: the
  decoded text of a frame, or the exception raised by the read or by the decoding.
\<close>

record adapter =
  sent :: "string list"
  replies :: "(error + string) list"

definition adapter_write :: "string \<Rightarrow> adapter \<Rightarrow> adapter" where
  "adapter_write command ad = ad\<lparr>sent := sent ad @ [command @ write_termination]\<rparr>"

definition read_decoded :: "adapter \<Rightarrow> (error + string) \<times> adapter" where
  "read_decoded ad =
     (case replies ad of
        [] \<Rightarrow> (Inl TimeoutError, ad)
      | r # rs \<Rightarrow> (r, ad\<lparr>replies := rs\<rparr>))"

text \<open>
  The body of \<^verbatim>\<open>_read_echo\<close> after the read: remove the prompt marker, split at the
  echo termination, drop the first and the last segment, join with a comma.
\<close>

definition scrub_echo :: "string \<Rightarrow> error + string" where
  "scrub_echo txt =
     (case py_split echo_termination (replace_str prompt [] txt) of
        Inl e \<Rightarrow> Inl e
      | Inr segs \<Rightarrow> Inr (join_str '','' (slice_1_m1 segs)))"

definition read_echo :: "adapter \<Rightarrow> (error + string) \<times> adapter" where
  "read_echo ad =
     (case read_decoded ad of
        (Inl e, ad') \<Rightarrow> (Inl e, ad')
      | (Inr txt, ad') \<Rightarrow> (scrub_echo txt, ad'))"

subsection \<open>The instrument\<close>

text \<open>
  \<^verbatim>\<open>NanoVNA.write\<close> hands the command to the adapter; \<^verbatim>\<open>NanoVNA.ask\<close> writes, waits
  (the delay has no effect on the exchanged data) and reads with the echo scrubbed.
\<close>

definition write_instr :: "string \<Rightarrow> adapter \<Rightarrow> adapter" where
  "write_instr command ad = adapter_write command ad"

definition ask :: "string \<Rightarrow> adapter \<Rightarrow> (error + string) \<times> adapter" where
  "ask command ad = read_echo (write_instr command ad)"

text \<open>Sequencing of calls: the first exception ends the method.\<close>

definition bind_io ::
  "(adapter \<Rightarrow> (error + 'a) \<times> adapter) \<Rightarrow> ('a \<Rightarrow> adapter \<Rightarrow> (error + 'b) \<times> adapter)
     \<Rightarrow> adapter \<Rightarrow> (error + 'b) \<times> adapter" where
  "bind_io m f ad =
     (case m ad of
        (Inl e, ad') \<Rightarrow> (Inl e, ad')
      | (Inr x, ad') \<Rightarrow> f x ad')"

definition return_io :: "'a \<Rightarrow> adapter \<Rightarrow> (error + 'a) \<times> adapter" where
  "return_io x ad = (Inr x, ad)"

definition lift_io :: "error + 'a \<Rightarrow> adapter \<Rightarrow> (error + 'a) \<times> adapter" where
  "lift_io r ad = (r, ad)"

subsection \<open>Decoding replies with numpy\<close>

text \<open>
  \<^verbatim>\<open>array(tokens, dtype=float)\<close> converts every token of the list, in order, and
  raises at the first token that is not a number. The conversion of one token is
  numpy's, not the driver's: it is the parameter \<open>to_float\<close>, \<open>None\<close> for a token that
  is not numeric. A float is taken as the real number it stands for; on finite values
  \<^verbatim>\<open>x * 1j\<close> and \<^verbatim>\<open>a + b * 1j\<close> are computed without rounding. Infinities and
  NaN have no counterpart here.
\<close>

fun float_array :: "(string \<Rightarrow> real option) \<Rightarrow> string list \<Rightarrow> error + real list" where
  "float_array to_float [] = Inr []"
| "float_array to_float (t # ts) =
     (case to_float t of
        None \<Rightarrow> Inl (ConvertError t)
      | Some x \<Rightarrow>
          (case float_array to_float ts of
             Inl e \<Rightarrow> Inl e
           | Inr xs \<Rightarrow> Inr (x # xs)))"

text \<open>The slice \<^verbatim>\<open>data[::2]\<close>; \<^verbatim>\<open>data[1::2]\<close> is the same slice of \<^verbatim>\<open>data[1:]\<close>.\<close>

fun stride2 :: "'a list \<Rightarrow> 'a list" where
  "stride2 [] = []"
| "stride2 [x] = [x]"
| "stride2 (x # y # zs) = x # stride2 zs"

text \<open>
  Addition of two one-dimensional arrays: elementwise when the lengths agree; an
  array of length one is broadcast along the other; any other pair of lengths raises.
\<close>

definition np_add :: "complex list \<Rightarrow> complex list \<Rightarrow> error + complex list" where
  "np_add a b =
     (if length a = length b then Inr (map2 (+) a b)
      else if length a = 1 then Inr (map (\<lambda>y. hd a + y) b)
      else if length b = 1 then Inr (map (\<lambda>x. x + hd b) a)
      else Inl BroadcastError)"

definition process_frequencies :: "(string \<Rightarrow> real option) \<Rightarrow> string \<Rightarrow> error + real list" where
  "process_frequencies to_float freqs =
     (case py_split '','' freqs of
        Inl e \<Rightarrow> Inl e
      | Inr toks \<Rightarrow> float_array to_float toks)"

definition get_frequencies ::
  "(string \<Rightarrow> real option) \<Rightarrow> adapter \<Rightarrow> (error + real list) \<times> adapter" where
  "get_frequencies to_float =
     bind_io (ask ''frequencies'') (\<lambda>r. lift_io (process_frequencies to_float r))"

definition process_data :: "(string \<Rightarrow> real option) \<Rightarrow> string \<Rightarrow> error + complex list" where
  "process_data to_float data =
     (case py_split '','' (replace_str '' '' '','' data) of
        Inl e \<Rightarrow> Inl e
      | Inr toks \<Rightarrow>
          (case float_array to_float toks of
             Inl e \<Rightarrow> Inl e
           | Inr d \<Rightarrow>
               np_add (map complex_of_real (stride2 d))
                      (map (\<lambda>x. complex_of_real x * \<i>) (stride2 (drop 1 d)))))"

definition get_S11_data ::
  "(string \<Rightarrow> real option) \<Rightarrow> adapter \<Rightarrow> (error + complex list) \<times> adapter" where
  "get_S11_data to_float =
     bind_io (ask ''data 0'') (\<lambda>r. lift_io (process_data to_float r))"

definition get_S21_data ::
  "(string \<Rightarrow> real option) \<Rightarrow> adapter \<Rightarrow> (error + complex list) \<times> adapter" where
  "get_S21_data to_float =
     bind_io (ask ''data 1'') (\<lambda>r. lift_io (process_data to_float r))"

text \<open>The dictionary returned by \<^verbatim>\<open>get_cals\<close> keeps its keys in insertion order.\<close>

definition get_cals ::
  "(string \<Rightarrow> real option) \<Rightarrow> adapter \<Rightarrow> (error + (string \<times> complex list) list) \<times> adapter" where
  "get_cals to_float =
     bind_io (ask ''data 2'') (\<lambda>r2. bind_io (lift_io (process_data to_float r2)) (\<lambda>cal_load.
     bind_io (ask ''data 3'') (\<lambda>r3. bind_io (lift_io (process_data to_float r3)) (\<lambda>cal_open.
     bind_io (ask ''data 4'') (\<lambda>r4. bind_io (lift_io (process_data to_float r4)) (\<lambda>cal_short.
     bind_io (ask ''data 5'') (\<lambda>r5. bind_io (lift_io (process_data to_float r5)) (\<lambda>cal_thru.
     bind_io (ask ''data 6'') (\<lambda>r6. bind_io (lift_io (process_data to_float r6)) (\<lambda>cal_isoln.
     return_io [(''load'', cal_load), (''open'', cal_open), (''short'', cal_short),
                (''thru'', cal_thru), (''isoln'', cal_isoln)]))))))))))"

text \<open>
  One sub-request of \<^verbatim>\<open>get_cals\<close> is \<^verbatim>\<open>self._process_data(self.ask(command))\<close>. Its
  outcome is fixed by the outcome of the read that answers it: \<open>reply_at ad k\<close> is the
  outcome of the read number \<open>k\<close> from the channel \<open>ad\<close> (a timeout when the device
  sends no more), and \<open>decode_reply\<close> is what scrubbing and decoding make of it.
\<close>

definition reply_at :: "adapter \<Rightarrow> nat \<Rightarrow> error + string" where
  "reply_at ad k = (if k < length (replies ad) then replies ad ! k else Inl TimeoutError)"

definition decode_reply :: "(string \<Rightarrow> real option) \<Rightarrow> error + string \<Rightarrow> error + complex list" where
  "decode_reply to_float r =
     (case r of
        Inl e \<Rightarrow> Inl e
      | Inr txt \<Rightarrow>
          (case scrub_echo txt of
             Inl e \<Rightarrow> Inl e
           | Inr reply \<Rightarrow> process_data to_float reply))"

subsection \<open>The power setting\<close>

text \<open>
  Modelled from the spec: \<^verbatim>\<open>Instrument.setting\<close> and the validator
  \<^verbatim>\<open>strict_discrete_set\<close> are not part of the source file, which only declares
  \<^verbatim>\<open>power = Instrument.setting('power %d', validator=strict_discrete_set,
  values=[-1, 0, 1, 2, 3])\<close>. After sections 4.2 and 7 of the specification, a value
  outside the declared set is rejected with a validation error before any write occurs;
  an accepted value is formatted into the command, which is written.
\<close>

definition strict_discrete_set :: "int \<Rightarrow> int list \<Rightarrow> error + int" where
  "strict_discrete_set v vals = (if v \<in> set vals then Inr v else Inl ValidationError)"

text \<open>The conversion \<^verbatim>\<open>%d\<close> of an integer: its decimal digits, after a minus sign if negative.\<close>

fun nat_digits :: "nat \<Rightarrow> string" where
  "nat_digits n =
     (if n < 10 then [''0123456789'' ! n]
      else nat_digits (n div 10) @ [''0123456789'' ! (n mod 10)])"

definition format_d :: "int \<Rightarrow> string" where
  "format_d v = (if v < 0 then CHR ''-'' # nat_digits (nat (- v)) else nat_digits (nat v))"

definition power_values :: "int list" where
  "power_values = [-1, 0, 1, 2, 3]"

definition set_power :: "int \<Rightarrow> adapter \<Rightarrow> (error + unit) \<times> adapter" where
  "set_power v ad =
     (case strict_discrete_set v power_values of
        Inl e \<Rightarrow> (Inl e, ad)
      | Inr v' \<Rightarrow> (Inr (), write_instr (''power '' @ format_d v') ad))"

subsection \<open>A reader of decimal literals\<close>

text \<open>
  One conversion to instantiate \<open>to_float\<close> with on concrete replies: an optional sign,
  then digits with at most one point and at least one digit. On such tokens it agrees
  with numpy's conversion up to rounding; other numeric forms (exponents, \<^verbatim>\<open>inf\<close>,
  \<^verbatim>\<open>nan\<close>) are not read by it.
\<close>

definition digit_val :: "char \<Rightarrow> nat option" where
  "digit_val c =
     map_of [(CHR ''0'', 0), (CHR ''1'', 1), (CHR ''2'', 2), (CHR ''3'', 3), (CHR ''4'', 4),
             (CHR ''5'', 5), (CHR ''6'', 6), (CHR ''7'', 7), (CHR ''8'', 8), (CHR ''9'', 9)] c"

fun read_digits :: "string \<Rightarrow> nat \<Rightarrow> nat option" where
  "read_digits [] acc = Some acc"
| "read_digits (c # cs) acc =
     (case digit_val c of
        None \<Rightarrow> None
      | Some d \<Rightarrow> read_digits cs (10 * acc + d))"

definition unsigned_decimal :: "string \<Rightarrow> real option" where
  "unsigned_decimal s =
     (let ip = takeWhile (\<lambda>c. c \<noteq> CHR ''.'') s;
          fp = drop 1 (dropWhile (\<lambda>c. c \<noteq> CHR ''.'') s)
      in if ip = [] \<and> fp = [] then None
         else (case (read_digits ip 0, read_digits fp 0) of
                 (Some i, Some f) \<Rightarrow> Some (real i + real f / 10 ^ length fp)
               | _ \<Rightarrow> None))"

fun decimal_float :: "string \<Rightarrow> real option" where
  "decimal_float [] = None"
| "decimal_float (c # cs) =
     (if c = CHR ''-'' then map_option uminus (unsigned_decimal cs)
      else if c = CHR ''+'' then unsigned_decimal cs
      else unsigned_decimal (c # cs))"

subsection \<open>Facts about the string methods\<close>

lemma slice_1_m1_eq: "slice_1_m1 xs = butlast (tl xs)"
  by (simp add: slice_1_m1_def drop_take butlast_conv_take drop_Suc)

lemma split_str_nonempty: "split_str sep s \<noteq> []"
  by (induction s) (auto split: list.splits)

text \<open>
  A pattern that does not contain the character \<open>c\<close> cannot match across a \<open>c\<close>:
  the replacement works on the parts before and after it separately.
\<close>

lemma prefix_append_sep:
  assumes "c \<notin> set old"
  shows "prefix old (s @ c # t) \<longleftrightarrow> prefix old s"
proof
  assume "prefix old (s @ c # t)"
  then obtain zs where zs: "s @ c # t = old @ zs"
    by (auto simp: prefix_def)
  show "prefix old s"
  proof (cases "length old \<le> length s")
    case True
    with zs show ?thesis
      by (metis append_eq_append_conv_if take_is_prefix)
  next
    case False
    then have "length s < length old" by simp
    with zs have "old ! length s = c"
      by (metis nth_append nth_append_length)
    with \<open>length s < length old\<close> have "c \<in> set old"
      using nth_mem by blast
    with assms show ?thesis by simp
  qed
next
  assume "prefix old s"
  then show "prefix old (s @ c # t)" by simp
qed

lemma replace_str_append_sep:
  "old \<noteq> [] \<Longrightarrow> c \<notin> set old \<Longrightarrow>
   replace_str old new (s @ c # t) = replace_str old new s @ c # replace_str old new t"
proof (induction old new s rule: replace_str.induct)
  case (1 old new)
  then have "\<not> prefix old (c # t)"
    by (cases old) auto
  with 1 show ?case by simp
next
  case (2 old new a s)
  show ?case
  proof (cases "prefix old (a # s)")
    case True
    then have "length old \<le> length (a # s)"
      by (rule prefix_length_le)
    moreover have "drop n (xs @ ys) = drop n xs @ ys" if "n \<le> length xs"
      for n and xs ys :: string
      using that by simp
    ultimately have "drop (length old) ((a # s) @ c # t) = drop (length old) (a # s) @ c # t"
      by blast
    moreover from True have "prefix old (a # s @ c # t)"
      using prefix_prefix [of old "a # s" "c # t"] by simp
    ultimately show ?thesis
      using True 2 by (simp del: drop_Suc_Cons)
  next
    case False
    with "2.prems"(2) have "\<not> prefix old ((a # s) @ c # t)"
      using prefix_append_sep [of c old "a # s" t] by blast
    with False 2 show ?thesis by simp
  qed
qed

lemma replace_str_absent: "\<not> occurs_in old s \<Longrightarrow> replace_str old new s = s"
  by (induction old new s rule: replace_str.induct) auto

lemma split_str_no_sep: "\<not> occurs_in sep s \<Longrightarrow> split_str sep s = [s]"
  by (induction s) auto

lemma split_str_sep_occurs:
  "sep \<noteq> [] \<Longrightarrow> occurs_in sep s \<Longrightarrow> 2 \<le> length (split_str sep s)"
proof (induction sep s rule: split_str.induct)
  case (1 sep)
  then show ?case by simp
next
  case (2 sep c cs)
  show ?case
  proof (cases "prefix sep (c # cs)")
    case True
    with 2 split_str_nonempty [of sep "drop (length sep) (c # cs)"] show ?thesis
      by (cases "split_str sep (drop (length sep) (c # cs))") simp_all
  next
    case False
    with 2 have "2 \<le> length (split_str sep cs)" by simp
    with False show ?thesis
      by (cases "split_str sep cs") simp_all
  qed
qed

lemma split_str_one_segment_iff:
  "sep \<noteq> [] \<Longrightarrow> length (split_str sep s) < 2 \<longleftrightarrow> \<not> occurs_in sep s"
  using split_str_sep_occurs [of sep s] split_str_no_sep [of sep s] by fastforce

lemma split_str_two:
  "a \<noteq> b \<Longrightarrow> \<not> occurs_in [a, b] s \<Longrightarrow>
   split_str [a, b] (s @ a # b # t) = s # split_str [a, b] t"
proof (induction s)
  case Nil
  then show ?case by simp
next
  case (Cons c s)
  from Cons.prems have np: "\<not> prefix [a, b] (c # s)" and ns: "\<not> occurs_in [a, b] s"
    by simp_all
  have "\<not> prefix [a, b] (c # s @ a # b # t)"
    using np Cons.prems(1) by (cases s) auto
  with Cons.IH [OF Cons.prems(1) ns] show ?case
    by simp
qed

lemma split_str_one:
  "c \<notin> set s \<Longrightarrow> split_str [c] (s @ c # t) = s # split_str [c] t"
  by (induction s) auto

subsection \<open>Scrubbing a frame\<close>

lemma replace_prompt_frame:
  "replace_str prompt [] (concat (map (\<lambda>l. l @ echo_termination) ls) @ prompt)
     = concat (map (\<lambda>l. replace_str prompt [] l @ echo_termination) ls)"
proof (induction ls)
  case Nil
  show ?case by (simp add: prompt_def)
next
  case (Cons l ls)
  let ?rest = "concat (map (\<lambda>l. l @ echo_termination) ls) @ prompt"
  have a: "prompt \<noteq> []" and b: "CR \<notin> set prompt" and c: "LF \<notin> set prompt"
    by (simp_all add: prompt_def CR_def LF_def)
  have "replace_str prompt [] (l @ CR # LF # ?rest)
        = replace_str prompt [] l @ CR # replace_str prompt [] ([] @ LF # ?rest)"
    using replace_str_append_sep [OF a b] by simp
  also have "replace_str prompt [] ([] @ LF # ?rest)
        = replace_str prompt [] [] @ LF # replace_str prompt [] ?rest"
    by (rule replace_str_append_sep [OF a c])
  finally show ?case using Cons a by (simp add: echo_termination_def)
qed

lemma split_frame:
  "\<forall>l \<in> set ls. \<not> occurs_in echo_termination l \<Longrightarrow>
   split_str echo_termination (concat (map (\<lambda>l. l @ echo_termination) ls)) = ls @ [[]]"
proof (induction ls)
  case Nil
  show ?case by simp
next
  case (Cons l ls)
  have ne: "CR \<noteq> LF" by (simp add: CR_def LF_def)
  from Cons.prems have l: "\<not> occurs_in [CR, LF] l" by (simp add: echo_termination_def)
  from split_str_two [OF ne l] Cons show ?case
    by (simp add: echo_termination_def)
qed

lemma scrub_echo_eq:
  "scrub_echo txt =
     Inr (join_str '','' (butlast (tl (split_str echo_termination (replace_str prompt [] txt)))))"
  by (simp add: scrub_echo_def py_split_def echo_termination_def slice_1_m1_eq)

lemma read_echo_next:
  "replies ad = Inr txt # rest \<Longrightarrow> read_echo ad = (scrub_echo txt, ad\<lparr>replies := rest\<rparr>)"
  by (simp add: read_echo_def read_decoded_def)

text \<open>
  C1. A raw frame made of the command echo, any number of reply lines, each ended by
  the echo termination, and the final prompt marker. \<^verbatim>\<open>_read_echo\<close> removes the prompt
  marker wherever it occurs; the split then gives the echo, the lines and a trailing
  empty segment; the first and the last segment are dropped and the lines are returned
  joined by commas. The echo and the lines are to be the segments, so none of them, once
  scrubbed, contains the echo termination. In particular, lines without a prompt marker
  are returned as they are.
\<close>

theorem read_echo_frame:
  assumes segs: "\<forall>s \<in> set (cmd # ls). \<not> occurs_in echo_termination (replace_str prompt [] s)"
    and frame: "frame = cmd @ echo_termination
                  @ concat (map (\<lambda>l. l @ echo_termination) ls) @ prompt"
    and next_reply: "replies ad = Inr frame # rest"
  shows "split_str echo_termination (replace_str prompt [] frame)
           = map (replace_str prompt []) (cmd # ls) @ [[]]
       \<and> read_echo ad
           = (Inr (join_str '','' (map (replace_str prompt []) ls)), ad\<lparr>replies := rest\<rparr>)
       \<and> ((\<forall>l \<in> set ls. \<not> occurs_in prompt l) \<longrightarrow>
            read_echo ad = (Inr (join_str '','' ls), ad\<lparr>replies := rest\<rparr>))"
proof -
  let ?scrubbed = "map (replace_str prompt []) (cmd # ls)"
  have fr: "frame = concat (map (\<lambda>l. l @ echo_termination) (cmd # ls)) @ prompt"
    using frame by simp
  have "replace_str prompt [] frame = concat (map (\<lambda>l. l @ echo_termination) ?scrubbed)"
    unfolding fr replace_prompt_frame by (simp add: comp_def)
  moreover have "split_str echo_termination (concat (map (\<lambda>l. l @ echo_termination) ?scrubbed))
      = ?scrubbed @ [[]]"
    using segs by (intro split_frame) simp
  ultimately have sp: "split_str echo_termination (replace_str prompt [] frame) = ?scrubbed @ [[]]"
    by simp
  then have "scrub_echo frame = Inr (join_str '','' (map (replace_str prompt []) ls))"
    by (simp add: scrub_echo_eq)
  with read_echo_next [OF next_reply]
  have re: "read_echo ad
      = (Inr (join_str '','' (map (replace_str prompt []) ls)), ad\<lparr>replies := rest\<rparr>)"
    by simp
  have "map (replace_str prompt []) ls = ls" if "\<forall>l \<in> set ls. \<not> occurs_in prompt l"
    using that by (simp add: replace_str_absent map_idI)
  with sp re show ?thesis by simp
qed

theorem read_echo_frame_witness:
  "\<not> occurs_in echo_termination (replace_str prompt [] ''data 0'')
   \<and> \<not> occurs_in echo_termination (replace_str prompt [] ''1.0 2.0'')
   \<and> \<not> occurs_in echo_termination (replace_str prompt [] ''3.0 -1.0'')
   \<and> \<not> occurs_in prompt ''1.0 2.0'' \<and> \<not> occurs_in prompt ''3.0 -1.0''
   \<and> read_echo \<lparr>sent = [''data 0'' @ [CR]],
        replies = [Inr (''data 0'' @ [CR, LF] @ ''1.0 2.0'' @ [CR, LF] @ ''3.0 -1.0'' @ [CR, LF] @ ''ch> '')]\<rparr>
       = (Inr ''1.0 2.0,3.0 -1.0'', \<lparr>sent = [''data 0'' @ [CR]], replies = []\<rparr>)
   \<and> \<not> occurs_in echo_termination (replace_str prompt [] ''info'')
   \<and> \<not> occurs_in echo_termination (replace_str prompt [] ''ch> ready'')
   \<and> read_echo \<lparr>sent = [''info'' @ [CR]],
        replies = [Inr (''info'' @ [CR, LF] @ ''ch> ready'' @ [CR, LF] @ ''ch> '')]\<rparr>
       = (Inr ''ready'', \<lparr>sent = [''info'' @ [CR]], replies = []\<rparr>)"
proof -
  have h: "\<forall>s \<in> set [''data 0'', ''1.0 2.0'', ''3.0 -1.0''].
             \<not> occurs_in echo_termination (replace_str prompt [] s)"
    and h': "\<forall>s \<in> set [''info'', ''ch> ready''].
             \<not> occurs_in echo_termination (replace_str prompt [] s)"
    and p: "\<forall>l \<in> set [''1.0 2.0'', ''3.0 -1.0'']. \<not> occurs_in prompt l"
    by (simp_all add: echo_termination_def prompt_def CR_def LF_def)
  from read_echo_frame [OF h refl, of "\<lparr>sent = [''data 0'' @ [CR]],
        replies = [Inr (''data 0'' @ [CR, LF] @ ''1.0 2.0'' @ [CR, LF] @ ''3.0 -1.0'' @ [CR, LF] @ ''ch> '')]\<rparr>" "[]"]
    read_echo_frame [OF h' refl, of "\<lparr>sent = [''info'' @ [CR]],
        replies = [Inr (''info'' @ [CR, LF] @ ''ch> ready'' @ [CR, LF] @ ''ch> '')]\<rparr>" "[]"]
    h h' p
  show ?thesis
    by (simp add: echo_termination_def prompt_def)
qed

text \<open>
  C3. When the decoded text, with the prompt marker removed, does not contain the echo
  termination, the split gives one segment, the slice is empty and \<^verbatim>\<open>_read_echo\<close>
  returns the empty string; no exception is raised.
\<close>

theorem read_echo_one_segment:
  assumes "\<not> occurs_in echo_termination (replace_str prompt [] txt)"
    and "replies ad = Inr txt # rest"
  shows "split_str echo_termination (replace_str prompt [] txt) = [replace_str prompt [] txt]
       \<and> read_echo ad = (Inr [], ad\<lparr>replies := rest\<rparr>)"
  using assms split_str_no_sep [of echo_termination "replace_str prompt [] txt"]
  by (simp add: read_echo_next scrub_echo_eq)

theorem read_echo_one_segment_witness:
  "\<not> occurs_in echo_termination (replace_str prompt [] ''ch> pause'')
   \<and> read_echo \<lparr>sent = [], replies = [Inr ''ch> pause'']\<rparr> = (Inr [], \<lparr>sent = [], replies = []\<rparr>)"
proof -
  have h: "\<not> occurs_in echo_termination (replace_str prompt [] ''ch> pause'')"
    by (simp add: echo_termination_def prompt_def CR_def LF_def)
  from read_echo_one_segment [OF h, of "\<lparr>sent = [], replies = [Inr ''ch> pause'']\<rparr>" "[]"]
  show ?thesis using h by simp
qed

text \<open>
  C2, as the code has it. A frame that splits into fewer than two segments does not
  make \<^verbatim>\<open>_read_echo\<close> fail: the slice of the one segment is empty and the empty
  string is returned.
\<close>

theorem read_echo_short_frame:
  assumes "length (split_str echo_termination (replace_str prompt [] txt)) < 2"
    and "replies ad = Inr txt # rest"
  shows "read_echo ad = (Inr [], ad\<lparr>replies := rest\<rparr>)"
proof -
  have "butlast (tl (split_str echo_termination (replace_str prompt [] txt))) = []"
    using assms(1)
    by (cases "split_str echo_termination (replace_str prompt [] txt)") simp_all
  with read_echo_next [OF assms(2)] show ?thesis
    by (simp add: scrub_echo_eq)
qed

theorem read_echo_short_frame_witness:
  "length (split_str echo_termination (replace_str prompt [] ''ch> '')) < 2
   \<and> read_echo \<lparr>sent = [], replies = [Inr ''ch> '', Inr ''x'']\<rparr>
       = (Inr [], \<lparr>sent = [], replies = [Inr ''x'']\<rparr>)"
proof -
  have h: "length (split_str echo_termination (replace_str prompt [] ''ch> '')) < 2"
    by (simp add: echo_termination_def prompt_def)
  from read_echo_short_frame [OF h, of "\<lparr>sent = [], replies = [Inr ''ch> '', Inr ''x'']\<rparr>" "[Inr ''x'']"]
  show ?thesis using h by simp
qed

text \<open>
  The empty reply is such a frame: it has one segment, and the read returns the empty
  string instead of raising a framing error.
\<close>

theorem read_echo_empty_reply_returns:
  "length (split_str echo_termination (replace_str prompt [] [])) < 2
   \<and> read_echo \<lparr>sent = [], replies = [Inr []]\<rparr> = (Inr [], \<lparr>sent = [], replies = []\<rparr>)"
  by (simp add: read_echo_def read_decoded_def scrub_echo_def py_split_def
      echo_termination_def prompt_def slice_1_m1_def)

subsection \<open>Facts about decoding\<close>

lemma occurs_in_single: "occurs_in [c] s \<longleftrightarrow> c \<in> set s"
  by (induction s) auto

lemma split_join_single:
  "toks \<noteq> [] \<Longrightarrow> \<forall>t \<in> set toks. c \<notin> set t \<Longrightarrow> split_str [c] (join_str [c] toks) = toks"
proof (induction "[c]" toks rule: join_str.induct)
  case 1
  then show ?case by simp
next
  case (2 x)
  then show ?case by (simp add: split_str_no_sep occurs_in_single)
next
  case (3 x y ys)
  then show ?case by (simp add: split_str_one)
qed

lemma replace_str_single:
  "replace_str [a] [b] s = map (\<lambda>c. if c = a then b else c) s"
  by (induction s) auto

lemma float_array_numeric:
  "map to_float toks = map Some ts \<Longrightarrow> float_array to_float toks = Inr ts"
  by (induction toks arbitrary: ts) auto

lemma float_array_not_numeric:
  "\<exists>t \<in> set toks. to_float t = None \<Longrightarrow>
   \<exists>t \<in> set toks. to_float t = None \<and> float_array to_float toks = Inl (ConvertError t)"
proof (induction toks)
  case Nil
  then show ?case by simp
next
  case (Cons a toks)
  show ?case
  proof (cases "to_float a")
    case None
    then show ?thesis by simp
  next
    case (Some x)
    with Cons.prems have "\<exists>t \<in> set toks. to_float t = None" by auto
    from Cons.IH [OF this] obtain t where "t \<in> set toks" "to_float t = None"
      "float_array to_float toks = Inl (ConvertError t)" by blast
    with Some show ?thesis by auto
  qed
qed

lemma float_array_first_not_numeric:
  "find (\<lambda>t. to_float t = None) toks = Some t \<Longrightarrow>
   float_array to_float toks = Inl (ConvertError t)"
  by (induction toks) (auto split: if_splits)

lemma float_array_all_numeric:
  "\<forall>t \<in> set toks. to_float t \<noteq> None \<Longrightarrow>
   float_array to_float toks = Inr (map (\<lambda>t. the (to_float t)) toks)"
  by (rule float_array_numeric) (simp add: comp_def)

lemma float_array_length:
  "float_array to_float toks = Inr d \<Longrightarrow> length d = length toks"
  by (induction toks arbitrary: d) (auto split: option.splits sum.splits)

lemma stride2_Cons: "stride2 (x # xs) = x # stride2 (drop 1 xs)"
  by (cases xs) simp_all

lemma length_stride2: "length (stride2 xs) = (length xs + 1) div 2"
  by (induction xs rule: stride2.induct) simp_all

lemma stride2_pairs:
  "length d = 2 * k \<Longrightarrow>
   map2 (+) (map complex_of_real (stride2 d)) (map (\<lambda>x. complex_of_real x * \<i>) (stride2 (drop 1 d)))
     = map (\<lambda>i. complex_of_real (d ! (2 * i)) + \<i> * complex_of_real (d ! (2 * i + 1))) [0..<k]"
proof (induction d arbitrary: k rule: stride2.induct)
  case 1
  then show ?case by simp
next
  case (2 x)
  then show ?case by simp
next
  case (3 x y zs)
  then obtain k' where k: "k = Suc k'" and l: "length zs = 2 * k'"
    by (cases k) auto
  have "[0..<Suc k'] = 0 # map Suc [0..<k']"
    by (simp add: upt_conv_Cons map_Suc_upt del: upt_Suc)
  with 3(1) [OF l] k show ?case
    by (simp add: stride2_Cons [of y] comp_def mult.commute del: upt_Suc)
qed

lemma np_add_even:
  assumes "length d = 2 * k"
  shows "np_add (map complex_of_real (stride2 d))
                (map (\<lambda>x. complex_of_real x * \<i>) (stride2 (drop 1 d)))
    = Inr (map (\<lambda>i. complex_of_real (d ! (2 * i)) + \<i> * complex_of_real (d ! (2 * i + 1))) [0..<k])"
  using assms stride2_pairs [OF assms] by (simp add: np_add_def length_stride2)

lemma process_data_eq:
  "process_data to_float data =
     (case float_array to_float (split_str '','' (replace_str '' '' '','' data)) of
        Inl e \<Rightarrow> Inl e
      | Inr d \<Rightarrow> np_add (map complex_of_real (stride2 d))
                   (map (\<lambda>x. complex_of_real x * \<i>) (stride2 (drop 1 d))))"
  by (simp add: process_data_def py_split_def)

lemma bind_ask_lift:
  "bind_io (ask command) (\<lambda>r. lift_io (f r)) ad =
     (case ask command ad of
        (Inl e, ad') \<Rightarrow> (Inl e, ad')
      | (Inr r, ad') \<Rightarrow> (f r, ad'))"
  by (simp add: bind_io_def lift_io_def split: prod.splits sum.splits)

text \<open>
  C4. When the tokens of a scrubbed reply, cut at spaces and commas alike, are an even
  number of numeric values \<open>ts\<close>, \<^verbatim>\<open>_process_data\<close> returns the \<open>k\<close> complex numbers
  \<open>ts[2i] + j ts[2i+1]\<close>, and \<^verbatim>\<open>get_S11_data\<close> and \<^verbatim>\<open>get_S21_data\<close> return what
  \<^verbatim>\<open>_process_data\<close> makes of the reply to their request.
\<close>

theorem process_data_pairs:
  assumes toks: "split_str '','' (replace_str '' '' '','' reply) = toks"
    and nums: "map to_float toks = map Some ts"
    and even_len: "length ts = 2 * k"
  shows "process_data to_float reply
           = Inr (map (\<lambda>i. complex_of_real (ts ! (2 * i)) + \<i> * complex_of_real (ts ! (2 * i + 1)))
                   [0..<k])
       \<and> (ask ''data 0'' ad = (Inr reply, ad') \<longrightarrow>
            get_S11_data to_float ad = (process_data to_float reply, ad'))
       \<and> (ask ''data 1'' ad = (Inr reply, ad') \<longrightarrow>
            get_S21_data to_float ad = (process_data to_float reply, ad'))"
proof -
  from nums have "float_array to_float toks = Inr ts"
    by (rule float_array_numeric)
  with toks np_add_even [OF even_len] have "process_data to_float reply
      = Inr (map (\<lambda>i. complex_of_real (ts ! (2 * i)) + \<i> * complex_of_real (ts ! (2 * i + 1)))
              [0..<k])"
    by (simp add: process_data_eq)
  then show ?thesis
    by (simp add: get_S11_data_def get_S21_data_def bind_ask_lift)
qed

theorem process_data_pairs_witness:
  "split_str '','' (replace_str '' '' '','' ''1.0 2.0,3.0 -1.0'') = [''1.0'', ''2.0'', ''3.0'', ''-1.0'']
   \<and> map decimal_float [''1.0'', ''2.0'', ''3.0'', ''-1.0''] = map Some [1, 2, 3, - 1]
   \<and> length [1, 2, 3, - 1 :: real] = 2 * 2
   \<and> process_data decimal_float ''1.0 2.0,3.0 -1.0'' = Inr [Complex 1 2, Complex 3 (- 1)]
   \<and> ask ''data 0'' \<lparr>sent = [], replies = [Inr (''data 0'' @ [CR, LF] @ ''1.0 2.0'' @ [CR, LF] @ ''3.0 -1.0'' @ [CR, LF] @ ''ch> '')]\<rparr>
       = (Inr ''1.0 2.0,3.0 -1.0'', \<lparr>sent = [''data 0'' @ [CR]], replies = []\<rparr>)
   \<and> get_S11_data decimal_float \<lparr>sent = [], replies = [Inr (''data 0'' @ [CR, LF] @ ''1.0 2.0'' @ [CR, LF] @ ''3.0 -1.0'' @ [CR, LF] @ ''ch> '')]\<rparr>
       = (Inr [Complex 1 2, Complex 3 (- 1)], \<lparr>sent = [''data 0'' @ [CR]], replies = []\<rparr>)
   \<and> ask ''data 1'' \<lparr>sent = [], replies = [Inr (''data 1'' @ [CR, LF] @ ''1.0 2.0'' @ [CR, LF] @ ''3.0 -1.0'' @ [CR, LF] @ ''ch> '')]\<rparr>
       = (Inr ''1.0 2.0,3.0 -1.0'', \<lparr>sent = [''data 1'' @ [CR]], replies = []\<rparr>)
   \<and> get_S21_data decimal_float \<lparr>sent = [], replies = [Inr (''data 1'' @ [CR, LF] @ ''1.0 2.0'' @ [CR, LF] @ ''3.0 -1.0'' @ [CR, LF] @ ''ch> '')]\<rparr>
       = (Inr [Complex 1 2, Complex 3 (- 1)], \<lparr>sent = [''data 1'' @ [CR]], replies = []\<rparr>)"
proof -
  have t: "split_str '','' (replace_str '' '' '','' ''1.0 2.0,3.0 -1.0'')
             = [''1.0'', ''2.0'', ''3.0'', ''-1.0'']"
    by simp
  have n: "map decimal_float [''1.0'', ''2.0'', ''3.0'', ''-1.0''] = map Some [1, 2, 3, - 1]"
    by (simp add: unsigned_decimal_def digit_val_def)
  have l: "length [1, 2, 3, - 1 :: real] = 2 * 2"
    by simp
  have a0: "ask ''data 0'' \<lparr>sent = [], replies = [Inr (''data 0'' @ [CR, LF] @ ''1.0 2.0'' @ [CR, LF] @ ''3.0 -1.0'' @ [CR, LF] @ ''ch> '')]\<rparr>
       = (Inr ''1.0 2.0,3.0 -1.0'', \<lparr>sent = [''data 0'' @ [CR]], replies = []\<rparr>)"
    by (simp add: ask_def write_instr_def adapter_write_def write_termination_def
        read_echo_next scrub_echo_eq echo_termination_def prompt_def CR_def LF_def)
  have a1: "ask ''data 1'' \<lparr>sent = [], replies = [Inr (''data 1'' @ [CR, LF] @ ''1.0 2.0'' @ [CR, LF] @ ''3.0 -1.0'' @ [CR, LF] @ ''ch> '')]\<rparr>
       = (Inr ''1.0 2.0,3.0 -1.0'', \<lparr>sent = [''data 1'' @ [CR]], replies = []\<rparr>)"
    by (simp add: ask_def write_instr_def adapter_write_def write_termination_def
        read_echo_next scrub_echo_eq echo_termination_def prompt_def CR_def LF_def)
  have u: "[0..<2] = [0, 1]"
    by (simp add: upt_conv_Cons)
  from process_data_pairs [OF t n l, of
      "\<lparr>sent = [], replies = [Inr (''data 0'' @ [CR, LF] @ ''1.0 2.0'' @ [CR, LF] @ ''3.0 -1.0'' @ [CR, LF] @ ''ch> '')]\<rparr>"
      "\<lparr>sent = [''data 0'' @ [CR]], replies = []\<rparr>"]
    process_data_pairs [OF t n l, of
      "\<lparr>sent = [], replies = [Inr (''data 1'' @ [CR, LF] @ ''1.0 2.0'' @ [CR, LF] @ ''3.0 -1.0'' @ [CR, LF] @ ''ch> '')]\<rparr>"
      "\<lparr>sent = [''data 1'' @ [CR]], replies = []\<rparr>"]
    t n a0 a1
  show ?thesis
    by (simp add: u Complex_eq)
qed

lemma process_frequencies_eq:
  "process_frequencies to_float freqs = float_array to_float (split_str '','' freqs)"
  by (simp add: process_frequencies_def py_split_def)

text \<open>
  C5. A scrubbed reply that is a comma-delimited sequence of tokens: when every token is
  numeric \<^verbatim>\<open>_process_frequencies\<close> returns their values in order; when some token is not
  numeric it fails with the conversion error of such a token; \<^verbatim>\<open>get_frequencies\<close>
  returns what \<^verbatim>\<open>_process_frequencies\<close> makes of the reply to its request.
\<close>

theorem get_frequencies_floats:
  assumes "toks \<noteq> []" and "\<forall>t \<in> set toks. CHR '','' \<notin> set t"
  shows "(map to_float toks = map Some fs \<longrightarrow>
            process_frequencies to_float (join_str '','' toks) = Inr fs)
       \<and> ((\<exists>t \<in> set toks. to_float t = None) \<longrightarrow>
            (\<exists>t \<in> set toks. to_float t = None
               \<and> process_frequencies to_float (join_str '','' toks) = Inl (ConvertError t)))
       \<and> (ask ''frequencies'' ad = (Inr (join_str '','' toks), ad') \<longrightarrow>
            get_frequencies to_float ad = (process_frequencies to_float (join_str '','' toks), ad'))"
proof -
  from assms have "split_str '','' (join_str '','' toks) = toks"
    by (rule split_join_single)
  then have "process_frequencies to_float (join_str '','' toks) = float_array to_float toks"
    by (simp add: process_frequencies_eq)
  then show ?thesis
    using float_array_not_numeric [of toks to_float]
    by (auto simp: float_array_numeric get_frequencies_def bind_ask_lift)
qed

theorem get_frequencies_floats_witness:
  "[''1000000'', ''2000000'', ''3000000''] \<noteq> []
   \<and> CHR '','' \<notin> set ''1000000'' \<and> CHR '','' \<notin> set ''2000000'' \<and> CHR '','' \<notin> set ''3000000''
   \<and> map decimal_float [''1000000'', ''2000000'', ''3000000''] = map Some [1000000, 2000000, 3000000]
   \<and> process_frequencies decimal_float ''1000000,2000000,3000000'' = Inr [1000000, 2000000, 3000000]
   \<and> ask ''frequencies'' \<lparr>sent = [], replies = [Inr (''frequencies'' @ [CR, LF] @ ''1000000'' @ [CR, LF] @ ''2000000'' @ [CR, LF] @ ''3000000'' @ [CR, LF] @ ''ch> '')]\<rparr>
       = (Inr ''1000000,2000000,3000000'', \<lparr>sent = [''frequencies'' @ [CR]], replies = []\<rparr>)
   \<and> get_frequencies decimal_float \<lparr>sent = [], replies = [Inr (''frequencies'' @ [CR, LF] @ ''1000000'' @ [CR, LF] @ ''2000000'' @ [CR, LF] @ ''3000000'' @ [CR, LF] @ ''ch> '')]\<rparr>
       = (Inr [1000000, 2000000, 3000000], \<lparr>sent = [''frequencies'' @ [CR]], replies = []\<rparr>)
   \<and> CHR '','' \<notin> set ''1000'' \<and> CHR '','' \<notin> set ''abc''
   \<and> decimal_float ''abc'' = None
   \<and> process_frequencies decimal_float ''1000,abc'' = Inl (ConvertError ''abc'')"
proof -
  have c: "\<forall>t \<in> set [''1000000'', ''2000000'', ''3000000'']. CHR '','' \<notin> set t"
    by simp
  have n: "map decimal_float [''1000000'', ''2000000'', ''3000000''] = map Some [1000000, 2000000, 3000000]"
    by (simp add: unsigned_decimal_def digit_val_def)
  have a: "ask ''frequencies'' \<lparr>sent = [], replies = [Inr (''frequencies'' @ [CR, LF] @ ''1000000'' @ [CR, LF] @ ''2000000'' @ [CR, LF] @ ''3000000'' @ [CR, LF] @ ''ch> '')]\<rparr>
       = (Inr ''1000000,2000000,3000000'', \<lparr>sent = [''frequencies'' @ [CR]], replies = []\<rparr>)"
    by (simp add: ask_def write_instr_def adapter_write_def write_termination_def
        read_echo_next scrub_echo_eq echo_termination_def prompt_def CR_def LF_def)
  have c': "\<forall>t \<in> set [''1000'', ''abc'']. CHR '','' \<notin> set t"
    by simp
  have n': "decimal_float ''abc'' = None" "decimal_float ''1000'' = Some 1000"
    by (simp_all add: unsigned_decimal_def digit_val_def)
  from get_frequencies_floats [OF _ c, of decimal_float "[1000000, 2000000, 3000000]"
      "\<lparr>sent = [], replies = [Inr (''frequencies'' @ [CR, LF] @ ''1000000'' @ [CR, LF] @ ''2000000'' @ [CR, LF] @ ''3000000'' @ [CR, LF] @ ''ch> '')]\<rparr>"
      "\<lparr>sent = [''frequencies'' @ [CR]], replies = []\<rparr>"]
    get_frequencies_floats [OF _ c', of decimal_float]
    n a n'
  show ?thesis
    by simp
qed

text \<open>
  C9, as the code has it. A reply with an odd number of tokens is decoded without an
  error exactly when all its tokens are numeric and there are at most three of them: one
  numeric token decodes to the empty sequence and three numeric tokens decode to two
  values that share the imaginary part, since numpy broadcasts an array of length one.
  Every other reply with an odd number of tokens fails: with the conversion error of its
  first token that is not numeric when there is one, and, when all its tokens are numeric
  and there are five or more, with the error of adding two arrays of different lengths.
\<close>

theorem process_data_odd_tokens:
  assumes toks: "split_str '','' (replace_str '' '' '','' reply) = toks"
    and odd_len: "odd (length toks)"
  shows "(find (\<lambda>t. to_float t = None) toks = Some t \<longrightarrow>
            process_data to_float reply = Inl (ConvertError t))
       \<and> (5 \<le> length toks \<and> map to_float toks = map Some ts \<longrightarrow>
            process_data to_float reply = Inl BroadcastError)
       \<and> (map to_float toks = map Some [t0] \<longrightarrow> process_data to_float reply = Inr [])
       \<and> (map to_float toks = map Some [t0, t1, t2] \<longrightarrow>
            process_data to_float reply = Inr [Complex t0 t1, Complex t2 t1])
       \<and> ((\<exists>r. process_data to_float reply = Inr r) \<longleftrightarrow>
            (\<forall>t \<in> set toks. to_float t \<noteq> None) \<and> length toks \<le> 3)"
proof -
  have bc: "np_add (map complex_of_real (stride2 d))
              (map (\<lambda>x. complex_of_real x * \<i>) (stride2 (drop 1 d))) = Inl BroadcastError"
    if "length d = length toks" "5 \<le> length toks" for d :: "real list"
    using that odd_len by (auto simp: np_add_def length_stride2 elim!: oddE)
  have conv: "process_data to_float reply = Inl (ConvertError t)"
    if "find (\<lambda>t. to_float t = None) toks = Some t" for t
    using float_array_first_not_numeric [OF that] toks by (simp add: process_data_eq)
  have all: "process_data to_float reply = Inl BroadcastError"
    if "5 \<le> length toks" "map to_float toks = map Some ts" for ts
  proof -
    from that(2) have "float_array to_float toks = Inr ts"
      by (rule float_array_numeric)
    moreover from this have "length ts = length toks"
      by (rule float_array_length)
    ultimately show ?thesis
      using bc [OF _ that(1)] toks by (simp add: process_data_eq)
  qed
  have one: "process_data to_float reply = Inr []" if "map to_float toks = map Some [t0]" for t0
    using float_array_numeric [OF that] toks by (simp add: process_data_eq np_add_def)
  have three: "process_data to_float reply = Inr [Complex t0 t1, Complex t2 t1]"
    if "map to_float toks = map Some [t0, t1, t2]" for t0 t1 t2
    using float_array_numeric [OF that] toks
    by (simp add: process_data_eq np_add_def Complex_eq)
  have returns_iff: "(\<exists>r. process_data to_float reply = Inr r) \<longleftrightarrow>
      (\<forall>t \<in> set toks. to_float t \<noteq> None) \<and> length toks \<le> 3"
  proof (cases "find (\<lambda>t. to_float t = None) toks")
    case (Some t)
    then have "t \<in> set toks" "to_float t = None"
      by (auto simp: find_Some_iff)
    with conv [OF Some] show ?thesis by auto
  next
    case None
    then have num: "\<forall>t \<in> set toks. to_float t \<noteq> None"
      by (simp add: find_None_iff)
    let ?ts = "map (\<lambda>t. the (to_float t)) toks"
    from num have m: "map to_float toks = map Some ?ts"
      by (simp add: comp_def)
    show ?thesis
    proof (cases "5 \<le> length toks")
      case True
      with all [OF True m] show ?thesis by simp
    next
      case False
      with odd_len have "length toks = 1 \<or> length toks = 3"
        by (auto elim!: oddE)
      then show ?thesis
      proof
        assume "length toks = 1"
        then obtain a where "toks = [a]"
          by (cases toks) auto
        with m have "map to_float toks = map Some [the (to_float a)]" by simp
        from one [OF this] num \<open>length toks = 1\<close> show ?thesis by simp
      next
        assume l: "length toks = 3"
        then obtain a b c where "toks = [a, b, c]"
          by (auto simp: length_Suc_conv numeral_3_eq_3)
        with m have "map to_float toks
            = map Some [the (to_float a), the (to_float b), the (to_float c)]" by simp
        from three [OF this] num l show ?thesis by simp
      qed
    qed
  qed
  from conv all one three returns_iff show ?thesis by blast
qed

theorem process_data_odd_tokens_witness:
  "split_str '','' (replace_str '' '' '','' ''1 2 3 4 5'') = [''1'', ''2'', ''3'', ''4'', ''5'']
   \<and> odd (length [''1'', ''2'', ''3'', ''4'', ''5''])
   \<and> 5 \<le> length [''1'', ''2'', ''3'', ''4'', ''5'']
   \<and> map decimal_float [''1'', ''2'', ''3'', ''4'', ''5''] = map Some [1, 2, 3, 4, 5]
   \<and> process_data decimal_float ''1 2 3 4 5'' = Inl BroadcastError
   \<and> split_str '','' (replace_str '' '' '','' ''7'') = [''7'']
   \<and> map decimal_float [''7''] = map Some [7]
   \<and> process_data decimal_float ''7'' = Inr []
   \<and> split_str '','' (replace_str '' '' '','' ''1 2,3'') = [''1'', ''2'', ''3'']
   \<and> map decimal_float [''1'', ''2'', ''3''] = map Some [1, 2, 3]
   \<and> process_data decimal_float ''1 2,3'' = Inr [Complex 1 2, Complex 3 2]
   \<and> split_str '','' (replace_str '' '' '','' []) = [[]]
   \<and> find (\<lambda>t. decimal_float t = None) [[]] = Some []
   \<and> process_data decimal_float [] = Inl (ConvertError [])
   \<and> split_str '','' (replace_str '' '' '','' ''1 x 3'') = [''1'', ''x'', ''3'']
   \<and> find (\<lambda>t. decimal_float t = None) [''1'', ''x'', ''3''] = Some ''x''
   \<and> process_data decimal_float ''1 x 3'' = Inl (ConvertError ''x'')
   \<and> split_str '','' (replace_str '' '' '','' ''1 2 3 y 5'') = [''1'', ''2'', ''3'', ''y'', ''5'']
   \<and> find (\<lambda>t. decimal_float t = None) [''1'', ''2'', ''3'', ''y'', ''5''] = Some ''y''
   \<and> process_data decimal_float ''1 2 3 y 5'' = Inl (ConvertError ''y'')"
proof -
  have s5: "split_str '','' (replace_str '' '' '','' ''1 2 3 4 5'') = [''1'', ''2'', ''3'', ''4'', ''5'']"
    and s1: "split_str '','' (replace_str '' '' '','' ''7'') = [''7'']"
    and s3: "split_str '','' (replace_str '' '' '','' ''1 2,3'') = [''1'', ''2'', ''3'']"
    and s0: "split_str '','' (replace_str '' '' '','' []) = [[]]"
    and sx: "split_str '','' (replace_str '' '' '','' ''1 x 3'') = [''1'', ''x'', ''3'']"
    and sy: "split_str '','' (replace_str '' '' '','' ''1 2 3 y 5'') = [''1'', ''2'', ''3'', ''y'', ''5'']"
    by simp_all
  have n5: "map decimal_float [''1'', ''2'', ''3'', ''4'', ''5''] = map Some [1, 2, 3, 4, 5]"
    and n1: "map decimal_float [''7''] = map Some [7]"
    and n3: "map decimal_float [''1'', ''2'', ''3''] = map Some [1, 2, 3]"
    and f0: "find (\<lambda>t. decimal_float t = None) [[]] = Some []"
    and fx: "find (\<lambda>t. decimal_float t = None) [''1'', ''x'', ''3''] = Some ''x''"
    and fy: "find (\<lambda>t. decimal_float t = None) [''1'', ''2'', ''3'', ''y'', ''5''] = Some ''y''"
    by (simp_all add: unsigned_decimal_def digit_val_def)
  from process_data_odd_tokens [OF s5, of decimal_float _ "[1, 2, 3, 4, 5]"]
    process_data_odd_tokens [OF s1, of decimal_float _ _ 7]
    process_data_odd_tokens [OF s3, of decimal_float _ _ 1 2 3]
    process_data_odd_tokens [OF s0, of decimal_float "[]"]
    process_data_odd_tokens [OF sx, of decimal_float "''x''"]
    process_data_odd_tokens [OF sy, of decimal_float "''y''"]
    s5 s1 s3 s0 sx sy n5 n1 n3 f0 fx fy
  show ?thesis by simp
qed

text \<open>
  Replies of one and of three numeric tokens, an odd number each, that are decoded
  without an error.
\<close>

theorem process_data_odd_returns:
  "length (split_str '','' (replace_str '' '' '','' ''1.0'')) = 1
   \<and> process_data decimal_float ''1.0'' = Inr []
   \<and> length (split_str '','' (replace_str '' '' '','' ''1.0 2.0 3.0'')) = 3
   \<and> process_data decimal_float ''1.0 2.0 3.0'' = Inr [Complex 1 2, Complex 3 2]"
  by (simp add: process_data_eq np_add_def unsigned_decimal_def digit_val_def Complex_eq)

text \<open>
  C10. \<^verbatim>\<open>_process_data\<close> decodes a string and the string with every space turned into
  a comma alike: to the same values or to the same failure.
\<close>

theorem process_data_space_is_comma:
  "process_data to_float (map (\<lambda>c. if c = CHR '' '' then CHR '','' else c) s)
     = process_data to_float s"
proof -
  let ?f = "\<lambda>c. if c = CHR '' '' then CHR '','' else c"
  have "map ?f (map ?f s) = map ?f s"
    by (induction s) simp_all
  then have "replace_str '' '' '','' (map ?f s) = replace_str '' '' '','' s"
    by (simp only: replace_str_single)
  then show ?thesis
    by (simp only: process_data_eq)
qed

subsection \<open>The calibration data\<close>

text \<open>
  One sub-request writes its command, consumes one read and either ends the method with
  the error of the decoding or goes on with the decoded values.
\<close>

lemma sub_request_step:
  "bind_io (ask command) (\<lambda>r. bind_io (lift_io (process_data to_float r)) f) ad =
     (case decode_reply to_float (reply_at ad 0) of
        Inl e \<Rightarrow> (Inl e, ad\<lparr>sent := sent ad @ [command @ write_termination],
                             replies := tl (replies ad)\<rparr>)
      | Inr v \<Rightarrow> f v (ad\<lparr>sent := sent ad @ [command @ write_termination],
                          replies := tl (replies ad)\<rparr>))"
  by (cases "replies ad")
    (auto simp: bind_io_def lift_io_def ask_def write_instr_def adapter_write_def
      read_echo_def read_decoded_def reply_at_def decode_reply_def
      split: sum.splits prod.splits)

lemma reply_at_step:
  "reply_at (ad\<lparr>sent := s, replies := tl (replies ad)\<rparr>) k = reply_at ad (Suc k)"
  by (cases "replies ad") (simp_all add: reply_at_def)

lemma reply_at_0:
  "reply_at ad 0 = (case replies ad of [] \<Rightarrow> Inl TimeoutError | r # rs \<Rightarrow> r)"
  by (simp add: reply_at_def split: list.splits)

lemma get_cals_fails:
  assumes "k < 5" and "decode_reply to_float (reply_at ad k) = Inl e"
  shows "\<exists>e'. fst (get_cals to_float ad) = Inl e'"
proof -
  from assms(1) consider "k = 0" | "k = 1" | "k = 2" | "k = 3" | "k = 4"
    by linarith
  then show ?thesis
  proof cases
    case 1
    with assms(2) show ?thesis
      unfolding get_cals_def
      by (simp only: sub_request_step reply_at_step return_io_def) simp
  next
    case 2
    with assms(2) show ?thesis
      unfolding get_cals_def
      by (simp only: sub_request_step reply_at_step return_io_def)
        (simp split: sum.splits)
  next
    case 3
    with assms(2) show ?thesis
      unfolding get_cals_def
      by (simp only: sub_request_step reply_at_step return_io_def)
        (simp add: numeral_2_eq_2 split: sum.splits)
  next
    case 4
    with assms(2) show ?thesis
      unfolding get_cals_def
      by (simp only: sub_request_step reply_at_step return_io_def)
        (simp add: numeral_3_eq_3 split: sum.splits)
  next
    case 5
    with assms(2) have "decode_reply to_float (reply_at ad (Suc (Suc (Suc (Suc 0))))) = Inl e"
      by (simp add: eval_nat_numeral)
    then show ?thesis
      unfolding get_cals_def
      by (simp only: sub_request_step reply_at_step return_io_def)
        (simp split: sum.splits)
  qed
qed


text \<open>
  C6, as the code has it. A call of \<^verbatim>\<open>get_cals\<close> whose five sub-requests succeed has
  written the five requests \<^verbatim>\<open>data 2\<close> to \<^verbatim>\<open>data 6\<close>, in this order and nothing else,
  has consumed five reads, and returns the dictionary with the keys load, open, short,
  thru, isoln in this order, the value of a key being the decoded reply to its request.
\<close>

theorem get_cals_success:
  assumes "replies ad = r2 # r3 # r4 # r5 # r6 # rest"
    and "decode_reply to_float r2 = Inr cal_load"
    and "decode_reply to_float r3 = Inr cal_open"
    and "decode_reply to_float r4 = Inr cal_short"
    and "decode_reply to_float r5 = Inr cal_thru"
    and "decode_reply to_float r6 = Inr cal_isoln"
  shows "get_cals to_float ad =
     (Inr [(''load'', cal_load), (''open'', cal_open), (''short'', cal_short),
           (''thru'', cal_thru), (''isoln'', cal_isoln)],
      ad\<lparr>sent := sent ad @ [''data 2'' @ write_termination, ''data 3'' @ write_termination,
                             ''data 4'' @ write_termination, ''data 5'' @ write_termination,
                             ''data 6'' @ write_termination],
         replies := rest\<rparr>)"
  unfolding get_cals_def
  by (simp only: sub_request_step) (simp add: reply_at_0 assms return_io_def)

theorem get_cals_success_witness:
  "decode_reply decimal_float (Inr (''data 2'' @ [CR, LF] @ ''1 0'' @ [CR, LF] @ ''ch> '')) = Inr [Complex 1 0]
   \<and> decode_reply decimal_float (Inr (''data 3'' @ [CR, LF] @ ''0 1'' @ [CR, LF] @ ''ch> '')) = Inr [Complex 0 1]
   \<and> decode_reply decimal_float (Inr (''data 4'' @ [CR, LF] @ ''2 3'' @ [CR, LF] @ ''ch> '')) = Inr [Complex 2 3]
   \<and> decode_reply decimal_float (Inr (''data 5'' @ [CR, LF] @ ''4 5'' @ [CR, LF] @ ''ch> '')) = Inr [Complex 4 5]
   \<and> decode_reply decimal_float (Inr (''data 6'' @ [CR, LF] @ ''6 7'' @ [CR, LF] @ ''ch> '')) = Inr [Complex 6 7]
   \<and> get_cals decimal_float
        \<lparr>sent = [], replies = [Inr (''data 2'' @ [CR, LF] @ ''1 0'' @ [CR, LF] @ ''ch> ''),
                               Inr (''data 3'' @ [CR, LF] @ ''0 1'' @ [CR, LF] @ ''ch> ''),
                               Inr (''data 4'' @ [CR, LF] @ ''2 3'' @ [CR, LF] @ ''ch> ''),
                               Inr (''data 5'' @ [CR, LF] @ ''4 5'' @ [CR, LF] @ ''ch> ''),
                               Inr (''data 6'' @ [CR, LF] @ ''6 7'' @ [CR, LF] @ ''ch> '')]\<rparr>
      = (Inr [(''load'', [Complex 1 0]), (''open'', [Complex 0 1]), (''short'', [Complex 2 3]),
              (''thru'', [Complex 4 5]), (''isoln'', [Complex 6 7])],
         \<lparr>sent = [''data 2'' @ [CR], ''data 3'' @ [CR], ''data 4'' @ [CR], ''data 5'' @ [CR],
                  ''data 6'' @ [CR]],
            replies = []\<rparr>)"
proof -
  have d: "decode_reply decimal_float (Inr (''data 2'' @ [CR, LF] @ ''1 0'' @ [CR, LF] @ ''ch> '')) = Inr [Complex 1 0]"
    "decode_reply decimal_float (Inr (''data 3'' @ [CR, LF] @ ''0 1'' @ [CR, LF] @ ''ch> '')) = Inr [Complex 0 1]"
    "decode_reply decimal_float (Inr (''data 4'' @ [CR, LF] @ ''2 3'' @ [CR, LF] @ ''ch> '')) = Inr [Complex 2 3]"
    "decode_reply decimal_float (Inr (''data 5'' @ [CR, LF] @ ''4 5'' @ [CR, LF] @ ''ch> '')) = Inr [Complex 4 5]"
    "decode_reply decimal_float (Inr (''data 6'' @ [CR, LF] @ ''6 7'' @ [CR, LF] @ ''ch> '')) = Inr [Complex 6 7]"
    by (simp_all add: decode_reply_def scrub_echo_eq process_data_eq np_add_def
        echo_termination_def prompt_def CR_def LF_def unsigned_decimal_def digit_val_def
        Complex_eq)
  have r: "replies \<lparr>sent = [], replies = [r2, r3, r4, r5, r6]\<rparr> = r2 # r3 # r4 # r5 # r6 # []"
    for r2 r3 r4 r5 r6 :: "error + string"
    by simp
  from get_cals_success [OF r d] d show ?thesis
    by (simp add: write_termination_def)
qed

text \<open>
  Not every call issues five requests and returns a dictionary: a call in which a
  sub-request fails stops there. Here the reply to the first request is not numeric;
  only \<^verbatim>\<open>data 2\<close> is written, the second frame stays unread and an error is returned.
\<close>

theorem get_cals_stops_at_failure:
  "get_cals decimal_float
     \<lparr>sent = [], replies = [Inr (''data 2'' @ [CR, LF] @ ''abc'' @ [CR, LF] @ ''ch> ''),
                            Inr (''data 3'' @ [CR, LF] @ ''1 2'' @ [CR, LF] @ ''ch> '')]\<rparr>
   = (Inl (ConvertError ''abc''),
      \<lparr>sent = [''data 2'' @ [CR]],
         replies = [Inr (''data 3'' @ [CR, LF] @ ''1 2'' @ [CR, LF] @ ''ch> '')]\<rparr>)"
  unfolding get_cals_def
  by (simp only: sub_request_step)
    (simp add: reply_at_0 decode_reply_def scrub_echo_eq process_data_eq
      echo_termination_def prompt_def write_termination_def CR_def LF_def
      unsigned_decimal_def digit_val_def)

text \<open>
  C7. When one of the five sub-requests of \<^verbatim>\<open>get_cals\<close> fails, be it the read, the
  scrubbing or the decoding, \<^verbatim>\<open>get_cals\<close> fails: its result is an error and not a
  dictionary. When the sub-requests before it succeed, the error is the one of the
  failing sub-request.
\<close>

theorem get_cals_all_or_nothing:
  assumes "k < 5" and "decode_reply to_float (reply_at ad k) = Inl e"
  shows "(\<exists>e'. fst (get_cals to_float ad) = Inl e')
       \<and> ((\<forall>i<k. \<exists>v. decode_reply to_float (reply_at ad i) = Inr v) \<longrightarrow>
            fst (get_cals to_float ad) = Inl e)"
proof -
  have "fst (get_cals to_float ad) = Inl e"
    if ok: "\<forall>i<k. \<exists>v. decode_reply to_float (reply_at ad i) = Inr v"
  proof -
    from assms(1) consider "k = 0" | "k = 1" | "k = 2" | "k = 3" | "k = 4"
      by linarith
    then show ?thesis
    proof cases
      case 1
      with assms(2) show ?thesis
        unfolding get_cals_def
        by (simp only: sub_request_step reply_at_step return_io_def) simp
    next
      case 2
      with ok obtain v0 where "decode_reply to_float (reply_at ad 0) = Inr v0"
        by auto
      with 2 assms(2) show ?thesis
        unfolding get_cals_def
        by (simp only: sub_request_step reply_at_step return_io_def) simp
    next
      case 3
      with ok obtain v0 v1 where "decode_reply to_float (reply_at ad 0) = Inr v0"
        "decode_reply to_float (reply_at ad (Suc 0)) = Inr v1"
        by (metis One_nat_def less_2_cases_iff)
      with 3 assms(2) show ?thesis
        unfolding get_cals_def
        by (simp only: sub_request_step reply_at_step return_io_def)
          (simp add: numeral_2_eq_2)
    next
      case 4
      with ok have "\<exists>v. decode_reply to_float (reply_at ad 0) = Inr v"
        "\<exists>v. decode_reply to_float (reply_at ad (Suc 0)) = Inr v"
        "\<exists>v. decode_reply to_float (reply_at ad (Suc (Suc 0))) = Inr v"
        by simp_all
      then obtain v0 v1 v2 where "decode_reply to_float (reply_at ad 0) = Inr v0"
        "decode_reply to_float (reply_at ad (Suc 0)) = Inr v1"
        "decode_reply to_float (reply_at ad (Suc (Suc 0))) = Inr v2"
        by blast
      with 4 assms(2) show ?thesis
        unfolding get_cals_def
        by (simp only: sub_request_step reply_at_step return_io_def)
          (simp add: numeral_3_eq_3)
    next
      case 5
      with ok have "\<exists>v. decode_reply to_float (reply_at ad 0) = Inr v"
        "\<exists>v. decode_reply to_float (reply_at ad (Suc 0)) = Inr v"
        "\<exists>v. decode_reply to_float (reply_at ad (Suc (Suc 0))) = Inr v"
        "\<exists>v. decode_reply to_float (reply_at ad (Suc (Suc (Suc 0)))) = Inr v"
        by simp_all
      then obtain v0 v1 v2 v3 where "decode_reply to_float (reply_at ad 0) = Inr v0"
        "decode_reply to_float (reply_at ad (Suc 0)) = Inr v1"
        "decode_reply to_float (reply_at ad (Suc (Suc 0))) = Inr v2"
        "decode_reply to_float (reply_at ad (Suc (Suc (Suc 0)))) = Inr v3"
        by blast
      moreover from 5 assms(2)
      have "decode_reply to_float (reply_at ad (Suc (Suc (Suc (Suc 0))))) = Inl e"
        by (simp add: eval_nat_numeral)
      ultimately show ?thesis
        unfolding get_cals_def
        by (simp only: sub_request_step reply_at_step return_io_def) simp
    qed
  qed
  with get_cals_fails [OF assms] show ?thesis
    by blast
qed

theorem get_cals_all_or_nothing_witness:
  "(2::nat) < 5
   \<and> decode_reply decimal_float (reply_at
        \<lparr>sent = [], replies = [Inr (''data 2'' @ [CR, LF] @ ''1 0'' @ [CR, LF] @ ''ch> ''),
                               Inr (''data 3'' @ [CR, LF] @ ''0 1'' @ [CR, LF] @ ''ch> ''),
                               Inl DecodeError,
                               Inr (''data 5'' @ [CR, LF] @ ''4 5'' @ [CR, LF] @ ''ch> ''),
                               Inr (''data 6'' @ [CR, LF] @ ''6 7'' @ [CR, LF] @ ''ch> '')]\<rparr> 2)
       = Inl DecodeError
   \<and> fst (get_cals decimal_float
        \<lparr>sent = [], replies = [Inr (''data 2'' @ [CR, LF] @ ''1 0'' @ [CR, LF] @ ''ch> ''),
                               Inr (''data 3'' @ [CR, LF] @ ''0 1'' @ [CR, LF] @ ''ch> ''),
                               Inl DecodeError,
                               Inr (''data 5'' @ [CR, LF] @ ''4 5'' @ [CR, LF] @ ''ch> ''),
                               Inr (''data 6'' @ [CR, LF] @ ''6 7'' @ [CR, LF] @ ''ch> '')]\<rparr>)
       = Inl DecodeError"
proof -
  let ?ad = "\<lparr>sent = [], replies = [Inr (''data 2'' @ [CR, LF] @ ''1 0'' @ [CR, LF] @ ''ch> ''),
                               Inr (''data 3'' @ [CR, LF] @ ''0 1'' @ [CR, LF] @ ''ch> ''),
                               Inl DecodeError,
                               Inr (''data 5'' @ [CR, LF] @ ''4 5'' @ [CR, LF] @ ''ch> ''),
                               Inr (''data 6'' @ [CR, LF] @ ''6 7'' @ [CR, LF] @ ''ch> '')]\<rparr>"
  have k: "(2::nat) < 5" by simp
  have f: "decode_reply decimal_float (reply_at ?ad 2) = Inl DecodeError"
    by (simp add: reply_at_def decode_reply_def)
  have ok: "\<forall>i<2. \<exists>v. decode_reply decimal_float (reply_at ?ad i) = Inr v"
    by (simp add: less_2_cases_iff reply_at_def decode_reply_def scrub_echo_eq process_data_eq
        np_add_def echo_termination_def prompt_def CR_def LF_def unsigned_decimal_def
        digit_val_def)
  from get_cals_all_or_nothing [OF k f] ok f show ?thesis
    by simp
qed

subsection \<open>Validation of the power setting\<close>

text \<open>
  C8. Setting \<^verbatim>\<open>power\<close> to an integer \<open>v\<close> succeeds exactly when \<open>v\<close> is one of
  -1, 0, 1, 2, 3, and then writes the line \<^verbatim>\<open>power v\<close>; for any other \<open>v\<close> it fails with
  the validation error and leaves the channel as it was: nothing is written.
\<close>

theorem set_power_validated:
  "(fst (set_power v ad) = Inr () \<longleftrightarrow> v \<in> {- 1, 0, 1, 2, 3})
   \<and> (v \<notin> {- 1, 0, 1, 2, 3} \<longrightarrow> set_power v ad = (Inl ValidationError, ad))
   \<and> (v \<in> {- 1, 0, 1, 2, 3} \<longrightarrow>
        set_power v ad = (Inr (), ad\<lparr>sent := sent ad @ [''power '' @ format_d v @ write_termination]\<rparr>))
   \<and> format_d (- 1) = ''-1'' \<and> format_d 0 = ''0'' \<and> format_d 1 = ''1''
   \<and> format_d 2 = ''2'' \<and> format_d 3 = ''3''"
  by (auto simp: set_power_def strict_discrete_set_def power_values_def write_instr_def
      adapter_write_def format_d_def)

theorem set_power_validated_witness:
  "(5::int) \<notin> {- 1, 0, 1, 2, 3}
   \<and> set_power 5 \<lparr>sent = [], replies = []\<rparr> = (Inl ValidationError, \<lparr>sent = [], replies = []\<rparr>)
   \<and> (2::int) \<in> {- 1, 0, 1, 2, 3}
   \<and> set_power 2 \<lparr>sent = [], replies = []\<rparr> = (Inr (), \<lparr>sent = [''power 2'' @ [CR]], replies = []\<rparr>)
   \<and> (- 1::int) \<in> {- 1, 0, 1, 2, 3}
   \<and> set_power (- 1) \<lparr>sent = [], replies = []\<rparr> = (Inr (), \<lparr>sent = [''power -1'' @ [CR]], replies = []\<rparr>)"
  using set_power_validated [of 5 "\<lparr>sent = [], replies = []\<rparr>"]
    set_power_validated [of 2 "\<lparr>sent = [], replies = []\<rparr>"]
    set_power_validated [of "- 1" "\<lparr>sent = [], replies = []\<rparr>"]
  by (simp add: write_termination_def)

end
